theory Spec2Isabelle
  imports Main "HOL-Library.Word"
begin

unbundle bit_operations_syntax

section \<open>Machine types of the loader\<close>

text \<open>
  The loader is built for 32-bit Windows (it includes \<open>windows.h\<close>): \<open>int\<close>, \<open>long\<close>,
  \<open>ulong\<close> and the SDK's \<open>ea_t\<close> are 32 bits wide, \<open>unsigned short\<close> is 16 bits and
  \<open>unsigned char\<close> is 8 bits. Words carry the bit pattern; every comparison of the
  source that the model contains is an unsigned one after the usual arithmetic
  conversions, which is the order of words.
\<close>

type_synonym uchar = "8 word"
type_synonym ushort = "16 word"
type_synonym ulong = "32 word"
type_synonym ea_t = "32 word"
type_synonym int32 = "32 word"

text \<open>Constants of the SDK: \<open>BADADDR\<close> is \<open>ea_t(-1)\<close>, \<open>ACCEPT_FIRST\<close> is \<open>0x8000\<close>.\<close>

definition BADADDR :: ea_t where
  "BADADDR = 0xFFFFFFFF"

definition ACCEPT_FIRST :: int32 where
  "ACCEPT_FIRST = 0x8000"

definition CLASS_CODE :: string where
  "CLASS_CODE = ''CODE''"

section \<open>Declarations of \<open>nds.h\<close>\<close>

text \<open>
  \<open>nds.cpp\<close> includes \<open>nds.h\<close>, which declares the packed header structure \<open>nds_hdr\<close>,
  the lookup table \<open>crc16tab\<close>, the structure \<open>MEMARRAY\<close> and the static table
  \<open>memory\<close>. The functions below take what they use of these declarations as a
  parameter: the two tables, the size of the header structure and the byte offset of
  its field \<open>headerCRC16\<close>.
\<close>

record MEMARRAY =
  m_start :: ea_t
  m_end :: ea_t

record nds_h =
  crc16tab :: "ushort list"
  memory :: "MEMARRAY list"
  sizeof_nds_hdr :: nat
  offsetof_headerCRC16 :: nat

text \<open>
  The fields of \<open>nds_hdr\<close> that \<open>load_file\<close> computes with, each four bytes wide. The
  other fields it reads (\<open>title\<close>, \<open>headerSize\<close>, \<open>headerCRC16\<close>) only appear in the
  text of annotations.
\<close>

record nds_hdr =
  arm9_rom_offset :: ulong
  arm9_entry_address :: ulong
  arm9_ram_address :: ulong
  arm9_size :: ulong
  arm7_rom_offset :: ulong
  arm7_entry_address :: ulong
  arm7_ram_address :: ulong
  arm7_size :: ulong

section \<open>\<open>CalcCRC16\<close>\<close>

text \<open>
  The body of the loop: \<open>crc16 = (crc16 >> 8) ^ crc16tab[(crc16 ^ data) & 0xFF]\<close>.
  Both operands are promoted to \<open>int\<close>; the index lies in \<open>0..255\<close> and the result is
  stored back into an \<open>unsigned short\<close>.
\<close>

definition crc16_update :: "ushort list \<Rightarrow> ushort \<Rightarrow> uchar \<Rightarrow> ushort" where
  "crc16_update tab crc16 data =
     drop_bit 8 crc16 XOR tab ! unat ((crc16 XOR ucast data) AND 0xFF)"

text \<open>The loop \<open>for (int i = 0; i < 350; i++)\<close> over the raw bytes of the header.\<close>

function CalcCRC16_loop :: "ushort list \<Rightarrow> uchar list \<Rightarrow> nat \<Rightarrow> ushort \<Rightarrow> ushort" where
  "CalcCRC16_loop tab ndshdr i crc16 =
     (if i < 350
      then CalcCRC16_loop tab ndshdr (i + 1) (crc16_update tab crc16 (ndshdr ! i))
      else crc16)"
  by pat_completeness auto
termination
  by (relation "measure (\<lambda>(tab, ndshdr, i, crc16). 350 - i)") auto

declare CalcCRC16_loop.simps [simp del]

definition CalcCRC16 :: "ushort list \<Rightarrow> uchar list \<Rightarrow> ushort" where
  "CalcCRC16 tab ndshdr = CalcCRC16_loop tab ndshdr 0 0xFFFF"

section \<open>The input file and the calls into the SDK\<close>

text \<open>
  A \<open>linput_t\<close> is the content of the input file. \<open>qlsize\<close> returns its length as a
  32-bit \<open>long\<close>; \<open>qlread\<close> at a position returns the bytes that are there, at most as
  many as asked for, and its return value is their number.
\<close>

type_synonym linput_t = "uchar list"

definition qlsize :: "linput_t \<Rightarrow> int32" where
  "qlsize li = of_nat (length li)"

definition qlread :: "linput_t \<Rightarrow> nat \<Rightarrow> nat \<Rightarrow> uchar list" where
  "qlread li pos n = take n (drop pos li)"

text \<open>
  The calls a function makes into the SDK, recorded in the order it makes them. The
  text of an annotation is left out of \<open>Describe\<close>.
\<close>

datatype sdk_call =
    Qlsize
  | Qlseek int32
  | Qlread nat
  | Askyn_cv
  | Set_processor_type string
  | Set_selector int32 int32
  | Add_segm int32 ea_t ea_t string string
  | Set_segm_addressing ea_t int32
  | File2base int32 ea_t ea_t
  | Describe ea_t

section \<open>\<open>accept_file\<close>\<close>

text \<open>
  The state \<open>accept_file\<close> works on: the global header buffer \<open>hdr\<close> as raw bytes, the
  caller's buffer \<open>fileformatname\<close>, and the calls made so far.
\<close>

record accept_state =
  hdr :: "uchar list"
  fileformatname :: string
  sdk_calls :: "sdk_call list"

text \<open>The field \<open>hdr.headerCRC16\<close>: two bytes at its offset, little-endian.\<close>

definition headerCRC16 :: "nds_h \<Rightarrow> uchar list \<Rightarrow> ushort" where
  "headerCRC16 H bytes =
     ucast (bytes ! offsetof_headerCRC16 H) OR
     push_bit 8 (ucast (bytes ! (offsetof_headerCRC16 H + 1)))"

text \<open>
  \<open>qlread(li, &hdr, sizeof(nds_hdr))\<close> overwrites the front of the buffer with the
  bytes read; the buffer keeps its size.
\<close>

definition read_hdr :: "nds_h \<Rightarrow> uchar list \<Rightarrow> uchar list \<Rightarrow> uchar list" where
  "read_hdr H rd old = take (sizeof_nds_hdr H) (rd @ drop (length rd) old)"

definition accept_file :: "nds_h \<Rightarrow> linput_t \<Rightarrow> int32 \<Rightarrow> accept_state \<Rightarrow> int32 \<times> accept_state" where
  "accept_file H li n st =
     (if n \<noteq> 0 then (0, st)
      else
        let filelen = qlsize li;
            st1 = st\<lparr>sdk_calls := sdk_calls st @ [Qlsize]\<rparr>
        in if unat filelen < sizeof_nds_hdr H then (0, st1)
           else
             let rd = qlread li 0 (sizeof_nds_hdr H);
                 st2 = st1\<lparr>hdr := read_hdr H rd (hdr st1),
                           sdk_calls := sdk_calls st1 @ [Qlseek 0, Qlread (sizeof_nds_hdr H)]\<rparr>
             in if length rd \<noteq> sizeof_nds_hdr H then (0, st2)
                else if CalcCRC16 (crc16tab H) (hdr st2) \<noteq> headerCRC16 H (hdr st2)
                then (0, st2)
                else (1 OR ACCEPT_FIRST,
                      st2\<lparr>fileformatname := ''Nintendo DS ROM'',
                          sdk_calls := sdk_calls st2 @ [Set_processor_type ''ARM'']\<rparr>))"

section \<open>\<open>load_file\<close>\<close>

text \<open>
  Every failure of \<open>load_file\<close> is \<open>qexit(1)\<close>, which ends the process; the error value
  records which of the four calls it was.
\<close>

datatype exit_site =
    Exit_cancel
  | Exit_sanitycheck
  | Exit_no_mem_block
  | Exit_add_segm

text \<open>
  What a completed \<open>load_file\<close> leaves behind: the calls it made, the three fields of the
  global \<open>inf\<close> it assigns, and its local variables.
\<close>

record loaded =
  calls :: "sdk_call list"
  inf_start_cs :: int32
  inf_startIP :: ea_t
  inf_beginEA :: ea_t
  startEA :: ea_t
  endEA :: ea_t
  offset :: int32
  ARM9 :: bool
  entry_point :: ea_t

text \<open>
  The first loop over \<open>memory\<close>: \<open>found_mem_block\<close> becomes true at the first entry with
  \<open>startEA >= memory[i].start || endEA <= memory[i].end\<close>.
\<close>

fun found_mem_block :: "MEMARRAY list \<Rightarrow> ea_t \<Rightarrow> ea_t \<Rightarrow> bool" where
  "found_mem_block [] start_ea end_ea = False"
| "found_mem_block (m # ms) start_ea end_ea =
     (if m_start m \<le> start_ea \<or> end_ea \<le> m_end m then True
      else found_mem_block ms start_ea end_ea)"

text \<open>
  The second loop over \<open>memory\<close>: one \<open>add_segm(1, start, end, "RAM", CLASS_CODE)\<close> per
  entry, and \<open>qexit(1)\<close> at the first that returns zero. Whether \<open>add_segm\<close> succeeds is
  decided by the SDK: the parameter \<open>add_segm\<close> answers it from the calls made so far
  and the two addresses.
\<close>

fun create_segments ::
  "(sdk_call list \<Rightarrow> ea_t \<Rightarrow> ea_t \<Rightarrow> bool) \<Rightarrow> MEMARRAY list \<Rightarrow> sdk_call list \<Rightarrow> sdk_call list option"
where
  "create_segments add_segm [] cs = Some cs"
| "create_segments add_segm (m # ms) cs =
     (if \<not> add_segm cs (m_start m) (m_end m) then None
      else create_segments add_segm ms
             (cs @ [Add_segm 1 (m_start m) (m_end m) ''RAM'' CLASS_CODE]))"

text \<open>
  The part of \<open>load_file\<close> after the choice of the image (from the check of the
  memory blocks to the end), which both branches share.
\<close>

definition load_image ::
  "nds_h \<Rightarrow> nds_hdr \<Rightarrow> (sdk_call list \<Rightarrow> ea_t \<Rightarrow> ea_t \<Rightarrow> bool) \<Rightarrow>
   sdk_call list \<Rightarrow> ea_t \<Rightarrow> ea_t \<Rightarrow> ea_t \<Rightarrow> int32 \<Rightarrow> bool \<Rightarrow> exit_site + loaded"
where
  "load_image H h add_segm cs startIP start_ea end_ea offs arm9 =
     (if \<not> found_mem_block (memory H) start_ea end_ea then Inl Exit_no_mem_block
      else
        case create_segments add_segm (memory H) (cs @ [Set_selector 1 0]) of
          None \<Rightarrow> Inl Exit_add_segm
        | Some cs1 \<Rightarrow>
            let cs2 = cs1 @ [Set_segm_addressing start_ea 1, File2base offs start_ea end_ea];
                entry = (if arm9 then arm9_entry_address h else arm7_entry_address h);
                cs3 = cs2 @ replicate 11 (Describe start_ea)
                        @ (if entry \<noteq> start_ea then [Describe entry] else [])
                        @ [Describe end_ea]
            in Inr \<lparr>calls = cs3,
                    inf_start_cs = (if entry \<noteq> BADADDR then 0 else 1),
                    inf_startIP = (if entry \<noteq> BADADDR then entry else startIP),
                    inf_beginEA = startIP,
                    startEA = start_ea, endEA = end_ea, offset = offs, ARM9 = arm9,
                    entry_point = entry\<rparr>)"

text \<open>
  \<open>load_file\<close>. Its inputs are the header structure as \<open>qlread\<close> left it, the value
  \<open>qlsize(li)\<close>, the answer of \<open>askyn_cv\<close> (1 yes, 0 no, -1 cancel) and the behaviour of
  \<open>add_segm\<close>. In \<open>qlsize(li) < offset + hdr.arm9_size\<close> the sum of a \<open>long\<close> and an
  unsigned 32-bit field is an unsigned 32-bit value, and so is the comparison.
\<close>

definition load_file ::
  "nds_h \<Rightarrow> nds_hdr \<Rightarrow> int32 \<Rightarrow> int32 \<Rightarrow> (sdk_call list \<Rightarrow> ea_t \<Rightarrow> ea_t \<Rightarrow> bool) \<Rightarrow>
   exit_site + loaded"
where
  "load_file H h filesize answer add_segm =
     (let cs = [Qlseek 0, Qlread (sizeof_nds_hdr H), Askyn_cv] in
      if answer = BADADDR then Inl Exit_cancel
      else if answer \<noteq> 0 then
        (let cs1 = cs @ [Set_processor_type ''ARM''];
             startIP = arm9_entry_address h;
             start_ea = arm9_ram_address h;
             end_ea = arm9_ram_address h + arm9_size h;
             offs = arm9_rom_offset h
         in if filesize < offs + arm9_size h then Inl Exit_sanitycheck
            else load_image H h add_segm (cs1 @ [Qlsize]) startIP start_ea end_ea offs True)
      else
        (let cs1 = cs @ [Set_processor_type ''ARM710A''];
             startIP = arm7_entry_address h;
             start_ea = arm7_ram_address h;
             end_ea = arm7_ram_address h + arm7_size h;
             offs = arm7_rom_offset h
         in if filesize < offs + arm7_size h then Inl Exit_sanitycheck
            else load_image H h add_segm (cs1 @ [Qlsize]) startIP start_ea end_ea offs False))"

section \<open>Vocabulary of the specification\<close>

text \<open>
  The checksum as the specification words it: the register starts at \<open>0xFFFF\<close> and each
  of the first 350 bytes, in order, updates it by
  \<open>crc = (crc >> 8) XOR table[(crc XOR byte) AND 0xFF]\<close>.
\<close>

definition spec_checksum :: "ushort list \<Rightarrow> uchar list \<Rightarrow> ushort" where
  "spec_checksum table headerBytes =
     foldl (\<lambda>crc byte. drop_bit 8 crc XOR table ! unat ((crc XOR ucast byte) AND 0xFF))
       0xFFFF (take 350 headerBytes)"

text \<open>
  The image descriptor that the variant selects: any answer but zero selects the ARM9
  image, zero the ARM7 image.
\<close>

record descriptor =
  entryAddress :: ea_t
  ramAddress :: ea_t
  imageSize :: ulong
  romOffset :: ulong

definition selected :: "nds_hdr \<Rightarrow> int32 \<Rightarrow> descriptor" where
  "selected h answer =
     (if answer \<noteq> 0
      then \<lparr>entryAddress = arm9_entry_address h, ramAddress = arm9_ram_address h,
            imageSize = arm9_size h, romOffset = arm9_rom_offset h\<rparr>
      else \<lparr>entryAddress = arm7_entry_address h, ramAddress = arm7_ram_address h,
            imageSize = arm7_size h, romOffset = arm7_rom_offset h\<rparr>)"

text \<open>The segment that \<open>load_file\<close> creates for an entry of \<open>memory\<close>.\<close>

definition ram_segment :: "MEMARRAY \<Rightarrow> sdk_call" where
  "ram_segment m = Add_segm 1 (m_start m) (m_end m) ''RAM'' CLASS_CODE"

fun is_add_segm :: "sdk_call \<Rightarrow> bool" where
  "is_add_segm (Add_segm sel s e name cls) = True"
| "is_add_segm c = False"

fun is_file2base :: "sdk_call \<Rightarrow> bool" where
  "is_file2base (File2base offs s e) = True"
| "is_file2base c = False"

text \<open>
  What makes a 256-entry table the table of a cyclic redundancy check: it is linear
  over exclusive or, and the high byte of every entry but the first is not zero.
\<close>

definition crc_table :: "ushort list \<Rightarrow> bool" where
  "crc_table tab \<longleftrightarrow>
     length tab = 256 \<and>
     (\<forall>a<256. \<forall>b<256. tab ! (a XOR b) = tab ! a XOR tab ! b) \<and>
     (\<forall>a<256. 0 < a \<longrightarrow> drop_bit 8 (tab ! a) \<noteq> 0)"

text \<open>The change of the register that a change \<open>d\<close> of the register causes one byte later.\<close>

definition crc16_feed :: "ushort list \<Rightarrow> ushort \<Rightarrow> ushort" where
  "crc16_feed tab d = drop_bit 8 d XOR tab ! unat (d AND 0xFF)"

text \<open>
  The table of a reflected 16-bit polynomial, entry by entry: eight shifts to the
  right, each followed by an exclusive or with the polynomial when the bit shifted
  out was set. The polynomial \<open>0xA001\<close> gives the table of ndstool, which starts
  \<open>0x0000, 0xC0C1, 0xC181, 0x0140\<close>.
\<close>

definition crc16_shift :: "ushort \<Rightarrow> ushort \<Rightarrow> ushort" where
  "crc16_shift poly c = (if bit c 0 then drop_bit 1 c XOR poly else drop_bit 1 c)"

fun crc16_shifts :: "ushort \<Rightarrow> nat \<Rightarrow> ushort \<Rightarrow> ushort" where
  "crc16_shifts poly 0 c = c"
| "crc16_shifts poly (Suc n) c = crc16_shifts poly n (crc16_shift poly c)"

definition crc16_entry :: "ushort \<Rightarrow> nat \<Rightarrow> ushort" where
  "crc16_entry poly i = crc16_shifts poly 8 (of_nat i)"

definition crc16_table :: "ushort \<Rightarrow> ushort list" where
  "crc16_table poly = map (crc16_entry poly) [0..<256]"

text \<open>The annotations that end \<open>load_file\<close>, as the calls they are.\<close>

definition annotations :: "ea_t \<Rightarrow> ea_t \<Rightarrow> ea_t \<Rightarrow> sdk_call list" where
  "annotations s e entry =
     replicate 11 (Describe s) @ (if entry \<noteq> s then [Describe entry] else []) @ [Describe e]"

section \<open>Example inputs\<close>

text \<open>
  Example declarations: the table of polynomial \<open>0xA001\<close>, the main RAM of the console
  as the only memory block, a header structure of 512 bytes with \<open>headerCRC16\<close> at
  offset 350.
\<close>

definition nds_h_example :: nds_h where
  "nds_h_example =
     \<lparr>crc16tab = crc16_table 0xA001,
      memory = [\<lparr>m_start = 0x02000000, m_end = 0x023FFFFF\<rparr>],
      sizeof_nds_hdr = 512,
      offsetof_headerCRC16 = 350\<rparr>"

text \<open>
  A header whose ARM9 image is the one of the specification's scenario; its entry
  address lies behind the end of the image.
\<close>

definition hdr_example :: nds_hdr where
  "hdr_example =
     \<lparr>arm9_rom_offset = 0x4000, arm9_entry_address = 0x02004000,
      arm9_ram_address = 0x02000000, arm9_size = 0x1000,
      arm7_rom_offset = 0x5000, arm7_entry_address = 0x02380000,
      arm7_ram_address = 0x02380000, arm7_size = 0x800\<rparr>"

text \<open>A header whose images start below the memory block and end above it.\<close>

definition hdr_outside :: nds_hdr where
  "hdr_outside =
     \<lparr>arm9_rom_offset = 0, arm9_entry_address = 0x01000000,
      arm9_ram_address = 0x01000000, arm9_size = 0x02000000,
      arm7_rom_offset = 0, arm7_entry_address = 0x01000000,
      arm7_ram_address = 0x01000000, arm7_size = 0x02000000\<rparr>"

text \<open>A header whose ARM9 image starts at the last byte a 32-bit offset can name.\<close>

definition hdr_wrapping :: nds_hdr where
  "hdr_wrapping =
     \<lparr>arm9_rom_offset = 0xFFFFFFFF, arm9_entry_address = 0x02000000,
      arm9_ram_address = 0x02000000, arm9_size = 2,
      arm7_rom_offset = 0x5000, arm7_entry_address = 0x02380000,
      arm7_ram_address = 0x02380000, arm7_size = 0x800\<rparr>"

text \<open>An \<open>add_segm\<close> that never fails.\<close>

definition add_segm_always :: "sdk_call list \<Rightarrow> ea_t \<Rightarrow> ea_t \<Rightarrow> bool" where
  "add_segm_always cs s e = True"

definition accept_state_example :: accept_state where
  "accept_state_example = \<lparr>hdr = replicate 512 0, fileformatname = [], sdk_calls = []\<rparr>"

text \<open>
  A file of 512 bytes, all zero but for the two bytes at offset 350, which hold the
  checksum of the first 350.
\<close>

definition li_example :: linput_t where
  "li_example =
     (let c = CalcCRC16 (crc16_table 0xA001) (replicate 512 0)
      in replicate 350 0 @ [ucast c, ucast (drop_bit 8 c)] @ replicate 160 0)"

section \<open>The checksum loop\<close>

lemma CalcCRC16_loop_foldl:
  "i \<le> 350 \<Longrightarrow> 350 \<le> length ndshdr \<Longrightarrow>
   CalcCRC16_loop tab ndshdr i crc16 =
     foldl (crc16_update tab) crc16 (drop i (take 350 ndshdr))"
proof (induction tab ndshdr i crc16 rule: CalcCRC16_loop.induct)
  case (1 tab ndshdr i crc16)
  show ?case
  proof (cases "i < 350")
    case True
    then have "drop i (take 350 ndshdr) = ndshdr ! i # drop (i + 1) (take 350 ndshdr)"
      using "1.prems" by (simp add: Cons_nth_drop_Suc [symmetric])
    moreover have "CalcCRC16_loop tab ndshdr i crc16 =
        CalcCRC16_loop tab ndshdr (i + 1) (crc16_update tab crc16 (ndshdr ! i))"
      using True by (subst CalcCRC16_loop.simps) simp
    ultimately show ?thesis
      using "1.IH" [OF True] True "1.prems" by simp
  next
    case False
    then show ?thesis
      using "1.prems" by (subst CalcCRC16_loop.simps) simp
  qed
qed

lemma CalcCRC16_foldl:
  "350 \<le> length ndshdr \<Longrightarrow>
   CalcCRC16 tab ndshdr = foldl (crc16_update tab) 0xFFFF (take 350 ndshdr)"
  by (simp add: CalcCRC16_def CalcCRC16_loop_foldl)

text \<open>
  C2. On a header buffer that holds at least the 350 covered bytes, \<open>CalcCRC16\<close> returns
  what the specified algorithm returns: register \<open>0xFFFF\<close> at the start, one table-driven
  update per byte of the first 350 raw bytes, in order, the last register value as result.
\<close>

theorem CalcCRC16_is_spec_checksum:
  "350 \<le> length ndshdr \<Longrightarrow> CalcCRC16 tab ndshdr = spec_checksum tab ndshdr"
proof -
  assume len: "350 \<le> length ndshdr"
  have "crc16_update tab =
      (\<lambda>crc byte. drop_bit 8 crc XOR tab ! unat ((crc XOR ucast byte) AND 0xFF))"
    by (intro ext) (simp add: crc16_update_def)
  then show ?thesis
    using CalcCRC16_foldl [OF len] by (simp add: spec_checksum_def)
qed

theorem CalcCRC16_is_spec_checksum_witness:
  "350 \<le> length (replicate 512 (0 :: uchar)) \<and>
   CalcCRC16 (crc16_table 0xA001) (replicate 512 0) =
     spec_checksum (crc16_table 0xA001) (replicate 512 0)"
  using CalcCRC16_is_spec_checksum [of "replicate 512 0" "crc16_table 0xA001"] by simp

section \<open>Tables of cyclic redundancy checks\<close>

lemma low_byte_lt: "unat ((x :: ushort) AND 0xFF) < 256"
proof -
  have "x AND 0xFF = take_bit 8 x"
    by (simp add: take_bit_eq_mask mask_eq_exp_minus_1)
  then show ?thesis
    by (simp add: unsigned_take_bit_eq take_bit_nat_less_exp [of 8, simplified])
qed

lemma unat_uchar_lt: "unat (e :: uchar) < 256"
  using unsigned_less [of e] by simp

lemma low_byte_ucast: "unat ((ucast (e :: uchar) :: ushort) AND 0xFF) = unat e"
proof -
  have "(ucast e :: ushort) AND 0xFF = take_bit 8 (ucast e)"
    by (simp add: take_bit_eq_mask mask_eq_exp_minus_1)
  moreover have "unat e < 2 ^ 8" "unat e < 2 ^ 16"
    using unat_uchar_lt [of e] by simp_all
  ultimately show ?thesis
    by (simp add: unsigned_take_bit_eq unsigned_ucast_eq take_bit_nat_eq_self)
qed

lemma word_xor_eq_0: "(a :: 'a::len word) XOR b = 0 \<longleftrightarrow> a = b"
  by (metis bit.xor_left_self bit.xor_self)

lemma word_xor_neq: "y \<noteq> 0 \<Longrightarrow> (x :: 'a::len word) XOR y \<noteq> x"
  by (metis bit.xor_left_self xor.right_neutral)

lemma crc_table_xor:
  assumes "crc_table tab"
  shows "tab ! unat ((x XOR y) AND 0xFF) =
    tab ! unat (x AND 0xFF) XOR tab ! unat (y AND (0xFF :: ushort))"
proof -
  have "unat ((x XOR y) AND 0xFF) = unat (x AND 0xFF) XOR unat (y AND 0xFF)"
    by (simp add: bit.conj_xor_distrib2 unsigned_xor_eq)
  then show ?thesis
    using assms low_byte_lt [of x] low_byte_lt [of y] by (simp add: crc_table_def)
qed

lemma crc_table_zero:
  assumes "crc_table tab"
  shows "tab ! 0 = 0"
proof -
  have "tab ! (0 XOR 0) = tab ! 0 XOR tab ! 0"
    using assms unfolding crc_table_def by (metis zero_less_numeral)
  then show ?thesis by simp
qed

lemma crc16_update_xor:
  assumes "crc_table tab"
  shows "crc16_update tab (c XOR d) b = crc16_update tab c b XOR crc16_feed tab d"
proof -
  have "(c XOR d) XOR ucast b = (c XOR ucast b) XOR d"
    by (simp add: ac_simps)
  then show ?thesis
    using crc_table_xor [OF assms, of "c XOR ucast b" d]
    by (simp add: crc16_update_def crc16_feed_def ac_simps)
qed

lemma crc16_feed_nonzero:
  assumes tab: "crc_table tab" and d: "d \<noteq> 0"
  shows "crc16_feed tab d \<noteq> 0"
proof
  assume "crc16_feed tab d = 0"
  then have eq: "drop_bit 8 d = tab ! unat (d AND 0xFF)"
    by (simp add: crc16_feed_def word_xor_eq_0)
  have "drop_bit 8 (drop_bit 8 d) = 0"
    by (rule bit_word_eqI) (auto simp: bit_simps dest: bit_imp_le_length)
  then have "drop_bit 8 (tab ! unat (d AND 0xFF)) = 0"
    using eq by simp
  then have low: "unat (d AND 0xFF) = 0"
    using tab low_byte_lt [of d] unfolding crc_table_def by (metis not_gr_zero)
  then have "drop_bit 8 d = 0"
    using eq crc_table_zero [OF tab] by simp
  moreover have "take_bit 8 d = 0"
    using low by (simp add: take_bit_eq_mask mask_eq_exp_minus_1 unat_eq_0)
  ultimately have "d = 0"
    by (metis bits_ident push_bit_of_0 add.right_neutral)
  with d show False by simp
qed

lemma crc16_update_inj:
  assumes tab: "crc_table tab" and eq: "crc16_update tab c b = crc16_update tab c' b"
  shows "c = c'"
proof (rule ccontr)
  assume "c \<noteq> c'"
  then have "c XOR c' \<noteq> 0" by (simp add: word_xor_eq_0)
  then have "crc16_feed tab (c XOR c') \<noteq> 0"
    by (rule crc16_feed_nonzero [OF tab])
  moreover have "crc16_update tab c' b = crc16_update tab c b XOR crc16_feed tab (c XOR c')"
    using crc16_update_xor [OF tab, of c "c XOR c'" b] by (simp add: xor.assoc [symmetric])
  ultimately show False
    using eq word_xor_neq [of "crc16_feed tab (c XOR c')" "crc16_update tab c' b"] by simp
qed

lemma foldl_crc16_update_inj:
  assumes tab: "crc_table tab"
  shows "c \<noteq> c' \<Longrightarrow> foldl (crc16_update tab) c bs \<noteq> foldl (crc16_update tab) c' bs"
proof (induction bs arbitrary: c c')
  case Nil
  then show ?case by simp
next
  case (Cons b bs)
  from Cons.prems have "crc16_update tab c b \<noteq> crc16_update tab c' b"
    using crc16_update_inj [OF tab] by blast
  then show ?case using Cons.IH by simp
qed

lemma crc16_update_data:
  assumes tab: "crc_table tab" and e: "e \<noteq> 0"
  shows "crc16_update tab c (b XOR e) \<noteq> crc16_update tab c b"
proof -
  have "unat e < 256" "0 < unat e"
    using e unat_uchar_lt [of e] by (simp_all add: unat_gt_0)
  then have "drop_bit 8 (tab ! unat e) \<noteq> 0"
    using tab unfolding crc_table_def by blast
  then have nz: "tab ! unat e \<noteq> 0" by auto
  have "c XOR ucast (b XOR e) = (c XOR ucast b) XOR ucast e"
    by (rule bit_word_eqI) (auto simp: bit_simps)
  then have "tab ! unat ((c XOR ucast (b XOR e)) AND 0xFF) =
      tab ! unat ((c XOR ucast b) AND 0xFF) XOR tab ! unat e"
    using crc_table_xor [OF tab, of "c XOR ucast b" "ucast e"] by (simp add: low_byte_ucast)
  then show ?thesis
    using word_xor_neq [OF nz, of "drop_bit 8 c XOR tab ! unat ((c XOR ucast b) AND 0xFF)"]
    by (simp add: crc16_update_def xor.assoc)
qed

lemma CalcCRC16_flip:
  assumes tab: "crc_table tab" and i: "i < 350" and len: "350 \<le> length ndshdr"
    and e: "e \<noteq> 0"
  shows "CalcCRC16 tab (ndshdr[i := ndshdr ! i XOR e]) \<noteq> CalcCRC16 tab ndshdr"
proof -
  let ?xs = "take 350 ndshdr"
  let ?f = "crc16_update tab"
  have xs: "?xs = take i ?xs @ ndshdr ! i # drop (Suc i) ?xs"
    using i len by (metis id_take_nth_drop length_take min.absorb2 nth_take)
  have "take 350 (ndshdr[i := ndshdr ! i XOR e]) = ?xs[i := ndshdr ! i XOR e]"
    by (simp add: take_update_swap)
  also have "\<dots> = take i ?xs @ (ndshdr ! i XOR e) # drop (Suc i) ?xs"
    using i len by (simp add: upd_conv_take_nth_drop)
  finally have ys: "take 350 (ndshdr[i := ndshdr ! i XOR e]) =
      take i ?xs @ (ndshdr ! i XOR e) # drop (Suc i) ?xs" .
  let ?c = "foldl ?f 0xFFFF (take i ?xs)"
  have "?f ?c (ndshdr ! i XOR e) \<noteq> ?f ?c (ndshdr ! i)"
    by (rule crc16_update_data [OF tab e])
  then have "foldl ?f (?f ?c (ndshdr ! i XOR e)) (drop (Suc i) ?xs) \<noteq>
      foldl ?f (?f ?c (ndshdr ! i)) (drop (Suc i) ?xs)"
    by (rule foldl_crc16_update_inj [OF tab])
  then have "foldl ?f 0xFFFF (take 350 (ndshdr[i := ndshdr ! i XOR e])) \<noteq>
      foldl ?f 0xFFFF ?xs"
    by (subst ys, subst (2) xs) simp
  then show ?thesis
    using len by (simp add: CalcCRC16_foldl)
qed

subsection \<open>The table of a reflected polynomial is such a table\<close>

lemma crc16_shift_feedback:
  assumes "bit poly 15" and "bit c 0"
  shows "bit (crc16_shift poly c) 15"
proof -
  have "\<not> bit (drop_bit 1 c) 15"
    by (auto simp: bit_drop_bit_eq dest: bit_imp_le_length)
  then show ?thesis
    using assms by (simp add: crc16_shift_def bit_xor_iff)
qed

lemma crc16_shift_high_zero:
  assumes "bit poly 15" and "drop_bit m (crc16_shift poly c) = 0" and "m \<le> 15"
  shows "\<not> bit c 0"
proof
  assume "bit c 0"
  then have "bit (crc16_shift poly c) (m + (15 - m))"
    using crc16_shift_feedback assms(1,3) by simp
  then have "bit (drop_bit m (crc16_shift poly c)) (15 - m)"
    by (simp add: bit_drop_bit_eq)
  with assms(2) show False by simp
qed

lemma crc16_shifts_high_zero:
  assumes poly: "bit poly 15"
  shows "drop_bit m (crc16_shifts poly n c) = 0 \<Longrightarrow> m + n \<le> 16 \<Longrightarrow>
    crc16_shifts poly n c = drop_bit n c \<and> (\<forall>k<n. \<not> bit c k)"
proof (induction n arbitrary: c)
  case 0
  then show ?case by simp
next
  case (Suc n)
  let ?d = "crc16_shift poly c"
  from Suc.prems have z: "drop_bit m (crc16_shifts poly n ?d) = 0" and mn: "m + n \<le> 16"
    by simp_all
  from Suc.IH [OF z mn] have eq: "crc16_shifts poly n ?d = drop_bit n ?d"
    and clear: "\<forall>k<n. \<not> bit ?d k" by simp_all
  from z eq have "drop_bit (m + n) ?d = 0"
    by simp
  then have c0: "\<not> bit c 0"
    using Suc.prems(2) by (intro crc16_shift_high_zero [OF poly, of "m + n"]) simp_all
  then have d: "?d = drop_bit 1 c"
    by (simp add: crc16_shift_def)
  have "\<not> bit c k" if "k < Suc n" for k
  proof (cases k)
    case 0
    then show ?thesis using c0 by simp
  next
    case (Suc j)
    then have "\<not> bit ?d j" using clear that by simp
    then show ?thesis using Suc d by (simp add: bit_drop_bit_eq)
  qed
  then show ?case
    using eq d by simp
qed

lemma nat_xor_less: "a < 2 ^ n \<Longrightarrow> b < 2 ^ n \<Longrightarrow> a XOR b < (2 :: nat) ^ n"
proof -
  assume "a < 2 ^ n" "b < 2 ^ n"
  then have "take_bit n (a XOR b) = a XOR b"
    by (simp add: take_bit_nat_eq_self)
  then show ?thesis
    by (metis take_bit_nat_less_exp)
qed

lemma crc16_entry_high:
  assumes "bit poly 15" and "0 < a" and "a < 256"
  shows "drop_bit 8 (crc16_entry poly a) \<noteq> 0"
proof
  let ?w = "of_nat a :: ushort"
  assume "drop_bit 8 (crc16_entry poly a) = 0"
  then have low: "\<forall>k<8. \<not> bit ?w k"
    using crc16_shifts_high_zero [OF assms(1), of 8 8 ?w] by (simp add: crc16_entry_def)
  have "take_bit 8 a = a"
    using assms(3) by (simp add: take_bit_nat_eq_self)
  then have "take_bit 8 ?w = ?w"
    by (metis of_nat_take_bit)
  moreover have "take_bit 8 ?w = 0"
    by (rule bit_word_eqI) (use low in \<open>simp add: bit_take_bit_iff\<close>)
  ultimately have "?w = 0" by simp
  then have "a = 0"
    using assms(3) by (auto simp: word_of_nat_eq_0_iff dest: dvd_imp_le)
  with assms(2) show False by simp
qed

lemma crc16_shift_xor:
  "crc16_shift poly (a XOR b) = crc16_shift poly a XOR crc16_shift poly b"
  by (simp add: crc16_shift_def bit_xor_iff ac_simps)

lemma crc16_shifts_xor:
  "crc16_shifts poly n (a XOR b) = crc16_shifts poly n a XOR crc16_shifts poly n b"
  by (induction n arbitrary: a b) (simp_all add: crc16_shift_xor)

lemma crc_table_crc16_table:
  assumes "bit poly 15"
  shows "crc_table (crc16_table poly)"
proof -
  have "crc16_table poly ! (a XOR b) = crc16_table poly ! a XOR crc16_table poly ! b"
    if "a < 256" "b < 256" for a b
  proof -
    have "a XOR b < 256" using nat_xor_less [of a 8 b] that by simp
    then show ?thesis using that
      by (simp add: crc16_table_def crc16_entry_def of_nat_xor_eq crc16_shifts_xor)
  qed
  moreover have "drop_bit 8 (crc16_table poly ! a) \<noteq> 0" if "a < 256" "0 < a" for a
    using crc16_entry_high [OF assms] that by (simp add: crc16_table_def)
  ultimately show ?thesis
    by (simp add: crc_table_def crc16_table_def)
qed

lemma crc_table_A001: "crc_table (crc16_table 0xA001)"
  by (rule crc_table_crc16_table) simp

text \<open>
  C8. \<open>CalcCRC16\<close> is a function of the table and of the first 350 bytes of the buffer
  alone, so two runs on equal buffers return the same value. When the table is the
  table of a cyclic redundancy check, flipping bit \<open>k\<close> of any one of the first 350
  bytes changes the result.
\<close>

theorem CalcCRC16_deterministic_and_detects_bit_flip:
  "(take 350 ndshdr = take 350 ndshdr' \<and> 350 \<le> length ndshdr \<and> 350 \<le> length ndshdr' \<longrightarrow>
      CalcCRC16 tab ndshdr = CalcCRC16 tab ndshdr') \<and>
   (crc_table tab \<and> 350 \<le> length ndshdr \<and> i < 350 \<and> k < 8 \<longrightarrow>
      CalcCRC16 tab (ndshdr[i := ndshdr ! i XOR push_bit k 1]) \<noteq> CalcCRC16 tab ndshdr)"
proof (intro conjI impI)
  assume "take 350 ndshdr = take 350 ndshdr' \<and> 350 \<le> length ndshdr \<and> 350 \<le> length ndshdr'"
  then show "CalcCRC16 tab ndshdr = CalcCRC16 tab ndshdr'"
    by (simp add: CalcCRC16_foldl)
next
  assume *: "crc_table tab \<and> 350 \<le> length ndshdr \<and> i < 350 \<and> k < 8"
  then have "(push_bit k 1 :: uchar) \<noteq> 0" by simp
  with * show "CalcCRC16 tab (ndshdr[i := ndshdr ! i XOR push_bit k 1]) \<noteq> CalcCRC16 tab ndshdr"
    by (intro CalcCRC16_flip) simp_all
qed

theorem CalcCRC16_deterministic_and_detects_bit_flip_witness:
  "crc_table (crc16_table 0xA001) \<and> 350 \<le> length (replicate 512 (0 :: uchar)) \<and>
   CalcCRC16 (crc16_table 0xA001) ((replicate 512 0)[349 := 0x80]) \<noteq>
     CalcCRC16 (crc16_table 0xA001) (replicate 512 0) \<and>
   CalcCRC16 (crc16_table 0xA001) (replicate 512 0) =
     CalcCRC16 (crc16_table 0xA001) (replicate 350 0 @ replicate 162 0xFF)"
proof -
  let ?z = "replicate 512 (0 :: uchar)"
  have same: "take 350 ?z = take 350 (replicate 350 (0 :: uchar) @ replicate 162 0xFF)"
    by simp
  show ?thesis
    using CalcCRC16_deterministic_and_detects_bit_flip
        [of ?z "replicate 350 0 @ replicate 162 0xFF" "crc16_table 0xA001" 349 7]
      crc_table_A001 same
    by auto
qed

section \<open>Recognising the file\<close>

lemma unat_qlsize: "length li < 2 ^ 32 \<Longrightarrow> unat (qlsize li) = length li"
  by (simp add: qlsize_def unat_of_nat)

lemma unat_qlsize_le: "unat (qlsize li) \<le> length li"
  by (simp add: qlsize_def unat_of_nat)

lemma read_hdr_full:
  "sizeof_nds_hdr H \<le> length li \<Longrightarrow>
   read_hdr H (qlread li 0 (sizeof_nds_hdr H)) old = take (sizeof_nds_hdr H) li"
  by (simp add: read_hdr_def qlread_def)

lemma accept_file_first:
  assumes "sizeof_nds_hdr H \<le> length li" and "length li < 2 ^ 32"
  shows "accept_file H li 0 st =
    (let bytes = take (sizeof_nds_hdr H) li;
         st2 = st\<lparr>hdr := bytes,
                  sdk_calls := sdk_calls st @ [Qlsize, Qlseek 0, Qlread (sizeof_nds_hdr H)]\<rparr>
     in if CalcCRC16 (crc16tab H) bytes \<noteq> headerCRC16 H bytes then (0, st2)
        else (0x8001, st2\<lparr>fileformatname := ''Nintendo DS ROM'',
                           sdk_calls := sdk_calls st2 @ [Set_processor_type ''ARM'']\<rparr>))"
proof -
  have "\<not> unat (qlsize li) < sizeof_nds_hdr H"
    using assms by (simp add: unat_qlsize)
  moreover have "length (qlread li 0 (sizeof_nds_hdr H)) = sizeof_nds_hdr H"
    using assms(1) by (simp add: qlread_def)
  ultimately show ?thesis
    using read_hdr_full [OF assms(1)] by (simp add: accept_file_def Let_def ACCEPT_FIRST_def)
qed

text \<open>
  C3. On the first invocation, a file that holds at least a whole header (and whose
  length \<open>qlsize\<close> can return) is accepted exactly when \<open>CalcCRC16\<close> of the header
  bytes equals their field \<open>headerCRC16\<close>; nothing else of the content is looked at.
  The result is then \<open>1 | ACCEPT_FIRST\<close>, and the header buffer holds the first
  \<open>sizeof(nds_hdr)\<close> bytes of the file.
\<close>

theorem accepted_iff_checksum_matches:
  "sizeof_nds_hdr H \<le> length li \<Longrightarrow> length li < 2 ^ 32 \<Longrightarrow>
   (fst (accept_file H li 0 st) \<noteq> 0) =
     (CalcCRC16 (crc16tab H) (take (sizeof_nds_hdr H) li) =
      headerCRC16 H (take (sizeof_nds_hdr H) li)) \<and>
   (fst (accept_file H li 0 st) = 0 \<or> fst (accept_file H li 0 st) = 1 OR ACCEPT_FIRST) \<and>
   hdr (snd (accept_file H li 0 st)) = take (sizeof_nds_hdr H) li"
proof -
  assume "sizeof_nds_hdr H \<le> length li" and "length li < 2 ^ 32"
  from accept_file_first [OF this] show ?thesis
    by (simp add: Let_def ACCEPT_FIRST_def)
qed

lemma headerCRC16_stored:
  "headerCRC16 nds_h_example (replicate 350 0 @ [ucast c, ucast (drop_bit 8 c)] @ bs) = c"
proof -
  have "(ucast (ucast c :: uchar) :: ushort) OR push_bit 8 (ucast (ucast (drop_bit 8 c) :: uchar)) = c"
    by (rule bit_word_eqI) (auto simp: bit_simps)
  then show ?thesis
    by (simp add: headerCRC16_def nds_h_example_def nth_append)
qed

theorem accepted_iff_checksum_matches_witness:
  "fst (accept_file nds_h_example li_example 0 accept_state_example) = 0x8001"
proof -
  let ?c = "CalcCRC16 (crc16_table 0xA001) (replicate 512 0)"
  have len: "length li_example = 512"
    by (simp add: li_example_def Let_def)
  then have bytes: "take (sizeof_nds_hdr nds_h_example) li_example = li_example"
    by (simp add: nds_h_example_def)
  have "take 350 li_example = take 350 (replicate 512 0)"
    by (simp add: li_example_def Let_def)
  then have "CalcCRC16 (crc16tab nds_h_example) li_example = ?c"
    using len by (simp add: CalcCRC16_foldl nds_h_example_def)
  moreover have "headerCRC16 nds_h_example li_example = ?c"
    unfolding li_example_def Let_def by (rule headerCRC16_stored)
  ultimately have "CalcCRC16 (crc16tab nds_h_example) li_example =
      headerCRC16 nds_h_example li_example"
    by simp
  moreover have "sizeof_nds_hdr nds_h_example \<le> length li_example"
    "length li_example < 2 ^ 32"
    using len by (simp_all add: nds_h_example_def)
  ultimately show ?thesis
    using accepted_iff_checksum_matches [of nds_h_example li_example accept_state_example]
      bytes
    by (auto simp: ACCEPT_FIRST_def)
qed

text \<open>
  C5. A file shorter than the header structure is not recognised, whatever the
  invocation index: \<open>accept_file\<close> returns 0, no header is read into the buffer and no
  format name is written.
\<close>

theorem short_file_rejected:
  "length li < sizeof_nds_hdr H \<Longrightarrow>
   fst (accept_file H li n st) = 0 \<and>
   hdr (snd (accept_file H li n st)) = hdr st \<and>
   fileformatname (snd (accept_file H li n st)) = fileformatname st"
proof -
  assume "length li < sizeof_nds_hdr H"
  then have "unat (qlsize li) < sizeof_nds_hdr H"
    using unat_qlsize_le [of li] by simp
  then show ?thesis
    by (simp add: accept_file_def Let_def)
qed

theorem short_file_rejected_witness:
  "length (replicate 10 (0 :: uchar)) < sizeof_nds_hdr nds_h_example \<and>
   fst (accept_file nds_h_example (replicate 10 0) 0 accept_state_example) = 0 \<and>
   hdr (snd (accept_file nds_h_example (replicate 10 0) 0 accept_state_example)) =
     replicate 512 0"
  using short_file_rejected [of "replicate 10 0" nds_h_example 0 accept_state_example]
  by (simp add: nds_h_example_def accept_state_example_def)

text \<open>
  C10. For an invocation index other than 0, \<open>accept_file\<close> returns 0 and leaves the
  state as it was: it has made no call on the file and the header buffer is untouched.
  So a result other than 0 is only possible for index 0.
\<close>

theorem later_invocations_rejected:
  "(n \<noteq> 0 \<longrightarrow> accept_file H li n st = (0, st)) \<and>
   (fst (accept_file H li n st) \<noteq> 0 \<longrightarrow> n = 0)"
  by (auto simp: accept_file_def)

theorem later_invocations_rejected_witness:
  "accept_file nds_h_example li_example 1 accept_state_example = (0, accept_state_example) \<and>
   accept_file nds_h_example li_example 2 accept_state_example = (0, accept_state_example)"
  using later_invocations_rejected [of 1 nds_h_example li_example accept_state_example]
    later_invocations_rejected [of 2 nds_h_example li_example accept_state_example]
  by simp

section \<open>Loading an image\<close>

lemma found_mem_block_iff:
  "found_mem_block mem s e \<longleftrightarrow> (\<exists>r\<in>set mem. m_start r \<le> s \<or> e \<le> m_end r)"
  by (induction mem) auto

lemma create_segments_Some:
  "create_segments add_segm mem cs = Some cs' \<Longrightarrow> cs' = cs @ map ram_segment mem"
proof (induction mem arbitrary: cs)
  case Nil
  then show ?case by simp
next
  case (Cons m mem)
  from Cons.prems have "create_segments add_segm mem (cs @ [ram_segment m]) = Some cs'"
    by (simp add: ram_segment_def split: if_splits)
  then show ?case
    using Cons.IH by fastforce
qed

lemma create_segments_succeeds:
  "(\<forall>cs. \<forall>m\<in>set mem. add_segm cs (m_start m) (m_end m)) \<Longrightarrow>
   create_segments add_segm mem cs = Some (cs @ map ram_segment mem)"
  by (induction mem arbitrary: cs) (auto simp: ram_segment_def)

lemma load_image_Inr:
  assumes "load_image H h add_segm cs ip s e offs arm9 = Inr p"
  shows "found_mem_block (memory H) s e"
    and "startEA p = s" and "endEA p = e" and "offset p = offs" and "ARM9 p = arm9"
    and "entry_point p = (if arm9 then arm9_entry_address h else arm7_entry_address h)"
    and "inf_beginEA p = ip"
    and "inf_startIP p = (if entry_point p \<noteq> BADADDR then entry_point p else ip)"
    and "calls p = cs @ [Set_selector 1 0] @ map ram_segment (memory H) @
           [Set_segm_addressing s 1, File2base offs s e] @ annotations s e (entry_point p)"
  using assms
  by (auto simp: load_image_def Let_def annotations_def split: if_splits option.splits
      dest!: create_segments_Some)

lemma load_image_succeeds:
  assumes "found_mem_block (memory H) s e"
    and "\<forall>cs. \<forall>m\<in>set (memory H). add_segm cs (m_start m) (m_end m)"
  shows "\<exists>p. load_image H h add_segm cs ip s e offs arm9 = Inr p"
  using assms by (simp add: load_image_def Let_def create_segments_succeeds)

lemma load_image_no_mem_block:
  "load_image H h add_segm cs ip s e offs arm9 = Inl Exit_no_mem_block \<longleftrightarrow>
   \<not> found_mem_block (memory H) s e"
  by (simp add: load_image_def Let_def split: option.splits)

lemma load_image_not_sanitycheck:
  "load_image H h add_segm cs ip s e offs arm9 \<noteq> Inl Exit_sanitycheck"
  by (simp add: load_image_def Let_def split: option.splits)

text \<open>\<open>load_file\<close> in terms of the selected descriptor.\<close>

lemma load_file_selected:
  "load_file H h filesize answer add_segm =
     (let d = selected h answer in
      if answer = BADADDR then Inl Exit_cancel
      else if filesize < romOffset d + imageSize d then Inl Exit_sanitycheck
      else load_image H h add_segm
        [Qlseek 0, Qlread (sizeof_nds_hdr H), Askyn_cv,
         Set_processor_type (if answer \<noteq> 0 then ''ARM'' else ''ARM710A''), Qlsize]
        (entryAddress d) (ramAddress d) (ramAddress d + imageSize d) (romOffset d)
        (answer \<noteq> 0))"
  by (simp add: load_file_def selected_def Let_def)

lemma load_file_Inr:
  assumes "load_file H h filesize answer add_segm = Inr p"
  defines "d \<equiv> selected h answer"
  shows "answer \<noteq> BADADDR" and "\<not> filesize < romOffset d + imageSize d"
    and "found_mem_block (memory H) (ramAddress d) (ramAddress d + imageSize d)"
    and "startEA p = ramAddress d" and "endEA p = ramAddress d + imageSize d"
    and "offset p = romOffset d" and "entry_point p = entryAddress d"
    and "inf_startIP p = entryAddress d" and "inf_beginEA p = entryAddress d"
    and "ARM9 p \<longleftrightarrow> answer \<noteq> 0"
    and "calls p =
       [Qlseek 0, Qlread (sizeof_nds_hdr H), Askyn_cv,
        Set_processor_type (if answer \<noteq> 0 then ''ARM'' else ''ARM710A''), Qlsize,
        Set_selector 1 0] @ map ram_segment (memory H) @
       [Set_segm_addressing (startEA p) 1, File2base (offset p) (startEA p) (endEA p)] @
       annotations (startEA p) (endEA p) (entry_point p)"
proof -
  let ?cs = "[Qlseek 0, Qlread (sizeof_nds_hdr H), Askyn_cv,
         Set_processor_type (if answer \<noteq> 0 then ''ARM'' else ''ARM710A''), Qlsize]"
  from assms(1) show a: "answer \<noteq> BADADDR" and b: "\<not> filesize < romOffset d + imageSize d"
    by (auto simp: load_file_selected Let_def d_def split: if_splits)
  with assms(1) have img: "load_image H h add_segm ?cs
        (entryAddress d) (ramAddress d) (ramAddress d + imageSize d) (romOffset d)
        (answer \<noteq> 0) = Inr p"
    by (simp add: load_file_selected Let_def d_def)
  note r = load_image_Inr [OF img]
  show "found_mem_block (memory H) (ramAddress d) (ramAddress d + imageSize d)"
    and "startEA p = ramAddress d" and "endEA p = ramAddress d + imageSize d"
    and "offset p = romOffset d"
    by (rule r)+
  show e: "entry_point p = entryAddress d"
    using r(6) by (simp add: d_def selected_def)
  show "inf_startIP p = entryAddress d"
    using r(8) e by simp
  show "inf_beginEA p = entryAddress d"
    by (rule r)
  show "ARM9 p \<longleftrightarrow> answer \<noteq> 0"
    by (rule r)
  show "calls p =
       [Qlseek 0, Qlread (sizeof_nds_hdr H), Askyn_cv,
        Set_processor_type (if answer \<noteq> 0 then ''ARM'' else ''ARM710A''), Qlsize,
        Set_selector 1 0] @ map ram_segment (memory H) @
       [Set_segm_addressing (startEA p) 1, File2base (offset p) (startEA p) (endEA p)] @
       annotations (startEA p) (endEA p) (entry_point p)"
    using r(9) r(2,3,4) by simp
qed

lemma load_file_succeeds:
  assumes "answer \<noteq> BADADDR"
    and "\<not> filesize < romOffset (selected h answer) + imageSize (selected h answer)"
    and "found_mem_block (memory H) (ramAddress (selected h answer))
           (ramAddress (selected h answer) + imageSize (selected h answer))"
    and "\<forall>cs. \<forall>m\<in>set (memory H). add_segm cs (m_start m) (m_end m)"
  shows "\<exists>p. load_file H h filesize answer add_segm = Inr p"
  using assms load_image_succeeds [OF assms(3,4)] by (simp add: load_file_selected Let_def)

lemma memory_example: "memory nds_h_example = [\<lparr>m_start = 0x02000000, m_end = 0x023FFFFF\<rparr>]"
  by (simp add: nds_h_example_def)

text \<open>
  C1. The check of the memory blocks accepts the window from \<open>startEA\<close> to \<open>endEA\<close>
  exactly when some entry \<open>r\<close> of \<open>memory\<close> has \<open>startEA >= r.start\<close> or
  \<open>endEA <= r.end\<close>; a window that starts at or above the start of some entry is
  accepted whatever its end. When the user has not cancelled and the sanity check has
  passed, \<open>load_file\<close> exits at the check of the memory blocks exactly when no entry
  satisfies the test.
\<close>

theorem region_legality_is_disjunction:
  "(found_mem_block mem s e \<longleftrightarrow> (\<exists>r\<in>set mem. m_start r \<le> s \<or> e \<le> m_end r)) \<and>
   (r \<in> set mem \<and> m_start r \<le> s \<longrightarrow> found_mem_block mem s e) \<and>
   (answer \<noteq> BADADDR \<and>
    \<not> filesize < romOffset (selected h answer) + imageSize (selected h answer) \<longrightarrow>
      (load_file H h filesize answer add_segm = Inl Exit_no_mem_block) =
      (\<not> (\<exists>r\<in>set (memory H).
            m_start r \<le> ramAddress (selected h answer) \<or>
            ramAddress (selected h answer) + imageSize (selected h answer) \<le> m_end r)))"
proof (intro conjI impI)
  show "found_mem_block mem s e \<longleftrightarrow> (\<exists>r\<in>set mem. m_start r \<le> s \<or> e \<le> m_end r)"
    by (rule found_mem_block_iff)
  show "found_mem_block mem s e" if "r \<in> set mem \<and> m_start r \<le> s"
    using that by (auto simp: found_mem_block_iff)
  show "(load_file H h filesize answer add_segm = Inl Exit_no_mem_block) =
      (\<not> (\<exists>r\<in>set (memory H).
            m_start r \<le> ramAddress (selected h answer) \<or>
            ramAddress (selected h answer) + imageSize (selected h answer) \<le> m_end r))"
    if "answer \<noteq> BADADDR \<and>
      \<not> filesize < romOffset (selected h answer) + imageSize (selected h answer)"
    using that
    by (simp add: load_file_selected Let_def load_image_no_mem_block found_mem_block_iff)
qed

theorem region_legality_is_disjunction_witness:
  "found_mem_block (memory nds_h_example) 0x02000000 0x09000000 \<and>
   load_file nds_h_example hdr_example 0x6000 1 add_segm_always \<noteq> Inl Exit_no_mem_block \<and>
   load_file nds_h_example hdr_outside 0x02000000 1 add_segm_always = Inl Exit_no_mem_block"
  using region_legality_is_disjunction
      [where mem = "memory nds_h_example" and s = "0x02000000" and e = "0x09000000"
         and r = "\<lparr>m_start = 0x02000000, m_end = 0x023FFFFF\<rparr>"
         and answer = 1 and filesize = "0x6000" and h = hdr_example and H = nds_h_example
         and add_segm = add_segm_always]
    region_legality_is_disjunction
      [where mem = "memory nds_h_example" and s = "0x02000000" and e = "0x09000000"
         and r = "\<lparr>m_start = 0x02000000, m_end = 0x023FFFFF\<rparr>"
         and answer = 1 and filesize = "0x02000000" and h = hdr_outside and H = nds_h_example
         and add_segm = add_segm_always]
  by (simp add: memory_example selected_def hdr_example_def hdr_outside_def BADADDR_def)

text \<open>
  C7. A completed \<open>load_file\<close> has \<open>startEA\<close> equal to the RAM address of the selected
  image, \<open>endEA\<close> equal to RAM address plus size, \<open>offset\<close> equal to its ROM offset, and
  both \<open>entry_point\<close> and \<open>inf.startIP\<close> equal to its entry address, unchanged. The
  scenario: with the ARM9 image at entry \<open>0x02004000\<close>, RAM \<open>0x02000000\<close>, size
  \<open>0x1000\<close>, ROM offset \<open>0x4000\<close>, a file of \<open>0x6000\<close> bytes, a table that contains the
  block from \<open>0x02000000\<close> to \<open>0x023FFFFF\<close> and an \<open>add_segm\<close> that succeeds, the load
  completes with exactly these values, though the entry address is outside the window.
\<close>

theorem load_plan_verbatim:
  "(load_file H h filesize answer add_segm = Inr p \<longrightarrow>
      startEA p = ramAddress (selected h answer) \<and>
      endEA p = ramAddress (selected h answer) + imageSize (selected h answer) \<and>
      offset p = romOffset (selected h answer) \<and>
      entry_point p = entryAddress (selected h answer) \<and>
      inf_startIP p = entryAddress (selected h answer)) \<and>
   (arm9_entry_address h = 0x02004000 \<and> arm9_ram_address h = 0x02000000 \<and>
    arm9_size h = 0x1000 \<and> arm9_rom_offset h = 0x4000 \<and>
    answer \<noteq> 0 \<and> answer \<noteq> BADADDR \<and>
    \<lparr>m_start = 0x02000000, m_end = 0x023FFFFF\<rparr> \<in> set (memory H) \<and>
    (\<forall>cs. \<forall>m\<in>set (memory H). add_segm cs (m_start m) (m_end m)) \<longrightarrow>
      (\<exists>q. load_file H h 0x6000 answer add_segm = Inr q \<and>
         startEA q = 0x02000000 \<and> endEA q = 0x02001000 \<and> offset q = 0x4000 \<and>
         entry_point q = 0x02004000 \<and> ARM9 q \<and>
         \<not> (startEA q \<le> entry_point q \<and> entry_point q < endEA q)))"
proof (rule conjI; rule impI)
  assume "load_file H h filesize answer add_segm = Inr p"
  from load_file_Inr [OF this]
  show "startEA p = ramAddress (selected h answer) \<and>
      endEA p = ramAddress (selected h answer) + imageSize (selected h answer) \<and>
      offset p = romOffset (selected h answer) \<and>
      entry_point p = entryAddress (selected h answer) \<and>
      inf_startIP p = entryAddress (selected h answer)"
    by simp
next
  let ?d = "selected h answer"
  assume *: "arm9_entry_address h = 0x02004000 \<and> arm9_ram_address h = 0x02000000 \<and>
    arm9_size h = 0x1000 \<and> arm9_rom_offset h = 0x4000 \<and>
    answer \<noteq> 0 \<and> answer \<noteq> BADADDR \<and>
    \<lparr>m_start = 0x02000000, m_end = 0x023FFFFF\<rparr> \<in> set (memory H) \<and>
    (\<forall>cs. \<forall>m\<in>set (memory H). add_segm cs (m_start m) (m_end m))"
  then have d: "entryAddress ?d = 0x02004000" "ramAddress ?d = 0x02000000"
      "imageSize ?d = 0x1000" "romOffset ?d = 0x4000"
    by (simp_all add: selected_def)
  have "found_mem_block (memory H) (ramAddress ?d) (ramAddress ?d + imageSize ?d)"
    unfolding found_mem_block_iff using * d by (intro bexI [of _ "\<lparr>m_start = 0x02000000, m_end = 0x023FFFFF\<rparr>"]) simp_all
  moreover have "\<not> (0x6000 :: int32) < romOffset ?d + imageSize ?d"
    using d by simp
  ultimately obtain q where q: "load_file H h 0x6000 answer add_segm = Inr q"
    using load_file_succeeds [of answer "0x6000" h H add_segm] * by blast
  show "\<exists>q. load_file H h 0x6000 answer add_segm = Inr q \<and>
         startEA q = 0x02000000 \<and> endEA q = 0x02001000 \<and> offset q = 0x4000 \<and>
         entry_point q = 0x02004000 \<and> ARM9 q \<and>
         \<not> (startEA q \<le> entry_point q \<and> entry_point q < endEA q)"
    using q load_file_Inr [OF q] d * by (intro exI [of _ q]) simp
qed

theorem load_plan_verbatim_witness:
  "\<not> isl (load_file nds_h_example hdr_example 0x6000 1 add_segm_always) \<and>
   startEA (projr (load_file nds_h_example hdr_example 0x6000 1 add_segm_always)) = 0x02000000 \<and>
   endEA (projr (load_file nds_h_example hdr_example 0x6000 1 add_segm_always)) = 0x02001000 \<and>
   offset (projr (load_file nds_h_example hdr_example 0x6000 1 add_segm_always)) = 0x4000 \<and>
   entry_point (projr (load_file nds_h_example hdr_example 0x6000 1 add_segm_always)) =
     0x02004000 \<and>
   inf_startIP (projr (load_file nds_h_example hdr_example 0x6000 1 add_segm_always)) =
     0x02004000"
proof -
  let ?r = "load_file nds_h_example hdr_example 0x6000 1 add_segm_always"
  from load_plan_verbatim
      [where h = hdr_example and H = nds_h_example and answer = 1
         and add_segm = add_segm_always]
  obtain q where q: "?r = Inr q"
    by (auto simp: hdr_example_def memory_example add_segm_always_def BADADDR_def)
  from load_plan_verbatim
      [where h = hdr_example and H = nds_h_example and answer = 1
         and add_segm = add_segm_always and filesize = "0x6000" and p = q] q
  show ?thesis
    by (simp add: selected_def hdr_example_def)
qed

text \<open>
  C6. In a completed \<open>load_file\<close> the calls of \<open>add_segm\<close> are, in order, one per entry
  of \<open>memory\<close>, each with the name \<open>RAM\<close> and the class \<open>CLASS_CODE\<close>, whatever the
  window of the selected image; there is one call of \<open>file2base\<close>, it copies from
  \<open>offset\<close> into the window from \<open>startEA\<close> to \<open>endEA\<close>, and every \<open>add_segm\<close> comes
  before it.
\<close>

theorem segments_for_every_region_before_copy:
  "load_file H h filesize answer add_segm = Inr p \<Longrightarrow>
   filter is_add_segm (calls p) = map ram_segment (memory H) \<and>
   (\<exists>before after.
      calls p = before @ [File2base (offset p) (startEA p) (endEA p)] @ after \<and>
      filter is_add_segm before = map ram_segment (memory H) \<and>
      filter is_add_segm after = [] \<and>
      filter is_file2base before = [] \<and> filter is_file2base after = [])"
proof -
  assume ld: "load_file H h filesize answer add_segm = Inr p"
  let ?pre = "[Qlseek 0, Qlread (sizeof_nds_hdr H), Askyn_cv,
        Set_processor_type (if answer \<noteq> 0 then ''ARM'' else ''ARM710A''), Qlsize,
        Set_selector 1 0] @ map ram_segment (memory H) @
       [Set_segm_addressing (startEA p) 1]"
  let ?post = "annotations (startEA p) (endEA p) (entry_point p)"
  have segs: "filter is_add_segm (map ram_segment mem) = map ram_segment mem"
    and nocopy: "filter is_file2base (map ram_segment mem) = []" for mem
    by (induction mem) (simp_all add: ram_segment_def)
  have ann: "filter is_add_segm ?post = []" "filter is_file2base ?post = []"
    by (simp_all add: annotations_def)
  have cs: "calls p = ?pre @ [File2base (offset p) (startEA p) (endEA p)] @ ?post"
    using load_file_Inr(11) [OF ld] by simp
  have "filter is_add_segm (calls p) = map ram_segment (memory H)"
    unfolding cs using segs ann by simp
  moreover have "filter is_add_segm ?pre = map ram_segment (memory H)"
    "filter is_file2base ?pre = []"
    using segs nocopy by simp_all
  ultimately show ?thesis
    using cs ann by blast
qed

theorem segments_for_every_region_before_copy_witness:
  "\<not> isl (load_file nds_h_example hdr_example 0x6000 0 add_segm_always) \<and>
   filter is_add_segm (calls (projr (load_file nds_h_example hdr_example 0x6000 0 add_segm_always))) =
     [Add_segm 1 0x02000000 0x023FFFFF ''RAM'' ''CODE''] \<and>
   filter is_file2base (calls (projr (load_file nds_h_example hdr_example 0x6000 0 add_segm_always))) =
     [File2base 0x5000 0x02380000 0x02380800]"
proof -
  let ?r = "load_file nds_h_example hdr_example 0x6000 0 add_segm_always"
  have q: "?r = Inr (projr ?r)"
    by (simp add: load_file_def load_image_def Let_def nds_h_example_def hdr_example_def
        add_segm_always_def BADADDR_def)
  from segments_for_every_region_before_copy [OF q] load_file_Inr(4,5,6) [OF q]
  obtain before after where
    "calls (projr ?r) = before @ [File2base 0x5000 0x02380000 0x02380800] @ after"
    "filter is_file2base before = []" "filter is_file2base after = []"
    "filter is_add_segm (calls (projr ?r)) = map ram_segment (memory nds_h_example)"
    by (auto simp: selected_def hdr_example_def)
  moreover have "\<not> isl ?r"
    by (subst q) simp
  ultimately show ?thesis
    by (simp add: memory_example ram_segment_def CLASS_CODE_def)
qed

text \<open>
  C9. The arithmetic of \<open>load_file\<close> is modulo \<open>2^32\<close>: \<open>endEA\<close> is RAM address plus
  size modulo \<open>2^32\<close>, and the sanity check exits exactly when the file size is below
  ROM offset plus size modulo \<open>2^32\<close>. So whenever \<open>memory\<close> is not empty and
  \<open>add_segm\<close> succeeds, there are a header and a file size for which the load
  completes although ROM offset plus size is greater than the file size.
\<close>

theorem bounds_check_wraps_at_32_bits:
  "(load_file H h filesize answer add_segm = Inr p \<longrightarrow>
      unat (endEA p) =
        (unat (ramAddress (selected h answer)) + unat (imageSize (selected h answer))) mod 2 ^ 32) \<and>
   (answer \<noteq> BADADDR \<longrightarrow>
      (load_file H h filesize answer add_segm = Inl Exit_sanitycheck) =
      (unat filesize <
        (unat (romOffset (selected h answer)) + unat (imageSize (selected h answer))) mod 2 ^ 32)) \<and>
   (answer \<noteq> BADADDR \<and> memory H \<noteq> [] \<and>
    (\<forall>cs. \<forall>m\<in>set (memory H). add_segm cs (m_start m) (m_end m)) \<longrightarrow>
      (\<exists>h' filesize' p'.
         load_file H h' filesize' answer add_segm = Inr p' \<and>
         unat filesize' <
           unat (romOffset (selected h' answer)) + unat (imageSize (selected h' answer))))"
proof (intro conjI; rule impI)
  assume "load_file H h filesize answer add_segm = Inr p"
  from load_file_Inr(5) [OF this]
  show "unat (endEA p) =
      (unat (ramAddress (selected h answer)) + unat (imageSize (selected h answer))) mod 2 ^ 32"
    by (simp add: unat_word_ariths)
next
  assume "answer \<noteq> BADADDR"
  then show "(load_file H h filesize answer add_segm = Inl Exit_sanitycheck) =
      (unat filesize <
        (unat (romOffset (selected h answer)) + unat (imageSize (selected h answer))) mod 2 ^ 32)"
    by (simp add: load_file_selected Let_def load_image_not_sanitycheck word_less_nat_alt
        unat_word_ariths)
next
  assume *: "answer \<noteq> BADADDR \<and> memory H \<noteq> [] \<and>
    (\<forall>cs. \<forall>m\<in>set (memory H). add_segm cs (m_start m) (m_end m))"
  define base where "base = m_start (hd (memory H))"
  define h' where "h' =
     \<lparr>arm9_rom_offset = 0xFFFFFFFF, arm9_entry_address = base,
      arm9_ram_address = base, arm9_size = 2,
      arm7_rom_offset = 0xFFFFFFFF, arm7_entry_address = base,
      arm7_ram_address = base, arm7_size = 2\<rparr>"
  have d: "romOffset (selected h' answer) = 0xFFFFFFFF" "imageSize (selected h' answer) = 2"
      "ramAddress (selected h' answer) = base"
    by (simp_all add: selected_def h'_def)
  have "hd (memory H) \<in> set (memory H)"
    using * by simp
  then have "found_mem_block (memory H) (ramAddress (selected h' answer))
      (ramAddress (selected h' answer) + imageSize (selected h' answer))"
    unfolding found_mem_block_iff d by (rule bexI [rotated]) (simp add: base_def)
  moreover have "\<not> (1 :: int32) < romOffset (selected h' answer) + imageSize (selected h' answer)"
    by (simp add: d)
  ultimately obtain p' where "load_file H h' 1 answer add_segm = Inr p'"
    using load_file_succeeds [of answer 1 h' H add_segm] * by blast
  moreover have "unat (1 :: int32) <
      unat (romOffset (selected h' answer)) + unat (imageSize (selected h' answer))"
    by (simp add: d)
  ultimately show "\<exists>h' filesize' p'.
         load_file H h' filesize' answer add_segm = Inr p' \<and>
         unat filesize' <
           unat (romOffset (selected h' answer)) + unat (imageSize (selected h' answer))"
    by blast
qed

theorem bounds_check_wraps_at_32_bits_witness:
  "\<not> isl (load_file nds_h_example hdr_wrapping 0x1000 1 add_segm_always) \<and>
   load_file nds_h_example hdr_example 0x3000 1 add_segm_always = Inl Exit_sanitycheck \<and>
   unat (endEA (projr (load_file nds_h_example hdr_wrapping 0x1000 1 add_segm_always))) =
     0x02000002"
proof -
  let ?r = "load_file nds_h_example hdr_wrapping 0x1000 1 add_segm_always"
  have ok: "?r = Inr (projr ?r)" and notl: "\<not> isl ?r"
    by (simp_all add: load_file_def load_image_def Let_def nds_h_example_def hdr_wrapping_def
        add_segm_always_def BADADDR_def)
  from bounds_check_wraps_at_32_bits
      [where H = nds_h_example and h = hdr_wrapping and filesize = "0x1000" and answer = 1
         and add_segm = add_segm_always and p = "projr ?r"]
    bounds_check_wraps_at_32_bits
      [where H = nds_h_example and h = hdr_example and filesize = "0x3000" and answer = 1
         and add_segm = add_segm_always]
    ok notl
  show ?thesis
    by (simp add: selected_def hdr_wrapping_def hdr_example_def BADADDR_def)
qed

text \<open>
  C4. The specification has \<open>load_file\<close> fail whenever ROM offset plus size exceeds the
  file length. With ROM offset \<open>0xFFFFFFFF\<close>, size 2 and a file of \<open>0x1000\<close> bytes the
  sum is \<open>2^32 + 1\<close>, and the load does not exit at the sanity check: it completes.
\<close>

theorem source_range_beyond_file_not_rejected:
  "unat (0x1000 :: int32) <
     unat (arm9_rom_offset hdr_wrapping) + unat (arm9_size hdr_wrapping) \<and>
   load_file nds_h_example hdr_wrapping 0x1000 1 add_segm_always \<noteq> Inl Exit_sanitycheck \<and>
   \<not> isl (load_file nds_h_example hdr_wrapping 0x1000 1 add_segm_always) \<and>
   offset (projr (load_file nds_h_example hdr_wrapping 0x1000 1 add_segm_always)) = 0xFFFFFFFF \<and>
   endEA (projr (load_file nds_h_example hdr_wrapping 0x1000 1 add_segm_always)) -
     startEA (projr (load_file nds_h_example hdr_wrapping 0x1000 1 add_segm_always)) = 2"
  by (simp add: load_file_def load_image_def Let_def nds_h_example_def hdr_wrapping_def
      add_segm_always_def BADADDR_def)

text \<open>Where the sum does not overflow, the sanity check is the comparison of the specification.\<close>

lemma sanitycheck_without_overflow:
  assumes "answer \<noteq> BADADDR"
    and "unat (romOffset (selected h answer)) + unat (imageSize (selected h answer)) < 2 ^ 32"
  shows "load_file H h filesize answer add_segm = Inl Exit_sanitycheck \<longleftrightarrow>
    unat filesize < unat (romOffset (selected h answer)) + unat (imageSize (selected h answer))"
  using assms
  by (simp add: load_file_selected Let_def load_image_not_sanitycheck word_less_nat_alt
      unat_word_ariths)

end
